theory Spec2Isabelle
  imports Complex_Main "HOL-Library.AList"
begin

section \<open>The redo worker loop of sz\_simple\_redoer.py\<close>

text \<open>
  The program is one coordinating thread around a thread pool. Everything it reads from
  outside (the clock, the engine, the governor, the pool's completions) is an input of
  the model: a record \<open>env\<close> holds the answers one iteration of \<open>while True\<close> receives.
  Everything it does to the outside (printing, sleeping, submitting, exiting) is an
  \<open>event\<close> of the trace an iteration returns. Clock readings and durations are Python
  floats; the model takes them as exact reals.
\<close>

subsection \<open>Python values\<close>

text \<open>What \<open>orjson.loads\<close> returns: \<open>None\<close>, a bool, a number, a str, a list or a dict.\<close>

datatype json =
    JNull
  | JBool bool
  | JNum real
  | JStr string
  | JList "json list"
  | JObj "(string \<times> json) list"

text \<open>Python's truth value of such an object, as \<open>if dsrc and rec_id\<close> tests it.\<close>

fun truthy :: "json \<Rightarrow> bool" where
  "truthy JNull = False"
| "truthy (JBool b) = b"
| "truthy (JNum x) = (x \<noteq> 0)"
| "truthy (JStr s) = (s \<noteq> [])"
| "truthy (JList xs) = (xs \<noteq> [])"
| "truthy (JObj kvs) = (kvs \<noteq> [])"

text \<open>\<open>rec.get(key)\<close> on a dict: \<open>None\<close> for a missing key; of a repeated key of the
  JSON text the last value is the dict's.\<close>

definition dict_get :: "(string \<times> json) list \<Rightarrow> string \<Rightarrow> json" where
  "dict_get kvs k = (case map_of (rev kvs) k of None \<Rightarrow> JNull | Some v \<Rightarrow> v)"

text \<open>An f-string, as its literal pieces and the values it interpolates with \<open>str\<close>.\<close>

datatype fpart = Lit string | Fmt json

type_synonym fstring = "fpart list"

text \<open>The value of a module constant read with \<open>os.getenv\<close>: an int or a str.\<close>

datatype pyval = PyInt int | PyStr string

text \<open>The exceptions the loop can see. \<open>G2BadInputException\<close> carries the code
  \<open>ExceptionCode(err)\<close> extracts from it; \<open>Other_exception\<close> is any other subclass of
  \<open>Exception\<close> an external call raises.\<close>

datatype exn =
    G2BadInputException int
  | G2RetryTimeoutExceeded
  | Other_exception string
  | TypeError
  | NameError
  | AttributeError
  | JSONDecodeError
  | KeyError
  | ValueError

subsection \<open>Module constants\<close>

definition INTERVAL :: nat where
  "INTERVAL = 1000"

text \<open>\<open>LONG_RECORD = os.getenv("LONG_RECORD", default=300)\<close>: the int 300 when the
  variable is unset, and the variable's text, a str, when it is set.\<close>

definition LONG_RECORD_getenv :: "string option \<Rightarrow> pyval" where
  "LONG_RECORD_getenv v = (case v of None \<Rightarrow> PyInt 300 | Some s \<Rightarrow> PyStr s)"


text \<open>\<open>LONG_RECORD / 2\<close>: true division of an int, \<open>TypeError\<close> on a str.\<close>

definition long_record_half :: "pyval \<Rightarrow> exn + real" where
  "long_record_half v = (case v of PyInt n \<Rightarrow> Inr (real_of_int n / 2) | PyStr s \<Rightarrow> Inl TypeError)"

text \<open>\<open>LONG_RECORD * 2\<close>: the product of an int, the repetition of a str.\<close>

definition long_record_twice :: "pyval \<Rightarrow> pyval" where
  "long_record_twice v = (case v of PyInt n \<Rightarrow> PyInt (n * 2) | PyStr s \<Rightarrow> PyStr (s @ s))"

text \<open>\<open>duration > x\<close> for a float \<open>duration\<close>: \<open>TypeError\<close> against a str.\<close>

definition float_gt :: "real \<Rightarrow> pyval \<Rightarrow> exn + bool" where
  "float_gt d v = (case v of PyInt n \<Rightarrow> Inr (d > real_of_int n) | PyStr s \<Rightarrow> Inl TypeError)"

text \<open>\<open>int(x)\<close> of a float: truncation towards zero.\<close>

definition int_of_float :: "real \<Rightarrow> int" where
  "int_of_float x = (if x < 0 then \<lceil>x\<rceil> else \<lfloor>x\<rfloor>)"

subsection \<open>loggingID\<close>

text \<open>
  \<open>rec.get\<close> exists on a dict only (\<open>AttributeError\<close> otherwise). The names \<open>PARAMS\<close>,
  \<open>PARAM\<close> and \<open>VALUE\<close> of the repair branch are bound nowhere in the module, so
  evaluating \<open>umf_proc[PARAMS]\<close> raises \<open>NameError\<close> before any subscript is taken.
\<close>

fun loggingID :: "json \<Rightarrow> exn + fstring" where
  "loggingID (JObj rec) =
     (let dsrc = dict_get rec ''DATA_SOURCE'';
          rec_id = dict_get rec ''RECORD_ID''
      in if truthy dsrc \<and> truthy rec_id then Inr [Fmt dsrc, Lit '' : '', Fmt rec_id]
         else (let umf_proc = dict_get rec ''UMF_PROC''
               in if truthy umf_proc then Inl NameError
                  else Inr [Lit ''UNKNOWN RECORD'']))"
| "loggingID _ = Inl AttributeError"

subsection \<open>Configuration, state, inputs and trace\<close>

type_synonym handle = nat

text \<open>What is fixed when the loop starts: \<open>executor._max_workers\<close>, the module constants,
  \<open>args.info\<close>, and \<open>orjson.loads\<close> (\<open>None\<close> where it raises).\<close>

record config =
  max_workers :: nat
  LONG_RECORD :: pyval
  EMPTY_PAUSE_TIME :: int
  info :: bool
  loads :: "string \<Rightarrow> json option"

text \<open>The loop's variables. \<open>futures\<close> is the dict of in-flight tasks in insertion order,
  each future mapped to \<open>(msg, start time)\<close>; \<open>next_future\<close> names the object the next
  \<open>executor.submit\<close> creates.\<close>

record state =
  futures :: "(handle \<times> string \<times> real) list"
  empty_pause :: real
  messages :: nat
  prevTime :: real
  logCheckTime :: real
  next_future :: handle

datatype engine_reply = Engine_returns string | Engine_raises exn

datatype fetch_result = Redo_record string | Fetch_raises exn

text \<open>The answers of the outside world during one iteration, in the order the loop asks:
  the clock at the top, the tasks \<open>wait\<close> finds completed with what the engine did for
  each, \<open>g2.stats\<close>, \<open>fut.done()\<close> during the scan, \<open>governor.govern()\<close>, the clock of
  the empty-pause test, the \<open>k\<close>-th \<open>g2.getRedoRecord\<close> of the fill loop with the clock
  read after it, and the clock and \<open>fut.done()\<close> of the shutdown handler.\<close>

record env =
  time_top :: real
  completed :: "handle \<Rightarrow> engine_reply option"
  g2_stats :: "exn + string"
  done_at_scan :: "handle \<Rightarrow> bool"
  govern :: "exn + real"
  time_pause_check :: real
  fetch :: "nat \<Rightarrow> fetch_result \<times> real"
  time_shutdown :: real
  done_at_shutdown :: "handle \<Rightarrow> bool"

datatype event =
    Print_result string
  | Print_transliteration_failure string
  | Print_hit_retry_timeout
  | Print_processed nat int
  | Print_stats string
  | Print_long_record real fstring
  | Print_all_stuck nat
  | Sleep real
  | Print_no_redo int
  | Submit handle string
  | Stderr_process_msg exn string
  | Stderr_fetch_error exn
  | Stderr_shutting_down exn
  | Print_still_processing real fstring
  | Executor_shutdown
  | Stderr_outer exn
  | Exit int

datatype flow = Next_iteration | Fall_through

datatype status = Running state | Exited int state

subsection \<open>process\_msg, run by a worker\<close>

definition process_msg :: "engine_reply \<Rightarrow> string \<Rightarrow> bool \<Rightarrow> event list \<times> (exn + string option)" where
  "process_msg reply msg withinfo =
     (case reply of
        Engine_raises err \<Rightarrow> ([Stderr_process_msg err msg], Inl err)
      | Engine_returns response \<Rightarrow> ([], Inr (if withinfo then Some response else None)))"

subsection \<open>Harvesting completions\<close>

text \<open>\<open>concurrent.futures.wait(futures, ...)\<close>: the registered futures that have
  completed. Python enumerates the set \<open>done\<close> in no specified order; the model takes
  the registry's.\<close>

definition wait_done :: "env \<Rightarrow> (handle \<times> string \<times> real) list \<Rightarrow> (handle \<times> engine_reply) list" where
  "wait_done e fs = List.map_filter (\<lambda>(fut, _). map_option (Pair fut) (completed e fut)) fs"

text \<open>The rate statistics, after \<open>messages += 1\<close>.\<close>

definition rate_stats :: "real \<Rightarrow> state \<Rightarrow> event list \<times> state" where
  "rate_stats nowTime s =
     (if messages s mod INTERVAL = 0
      then (let diff = nowTime - prevTime s;
                speed = (if diff > 0 then int_of_float (real INTERVAL / diff) else - 1)
            in ([Print_processed (messages s) speed], s\<lparr>prevTime := nowTime\<rparr>))
      else ([], s))"

text \<open>What the \<open>try\<close> around \<open>fut.result()\<close> prints, or the exception it lets through.\<close>

definition classify :: "string \<Rightarrow> exn + string option \<Rightarrow> exn + event list" where
  "classify msg outcome =
     (case outcome of
        Inr result \<Rightarrow>
          Inr (case result of
                 None \<Rightarrow> []
               | Some r \<Rightarrow> if r \<noteq> [] then [Print_result r] else [])
      | Inl (G2BadInputException code) \<Rightarrow>
          Inr (if code = 7426 then [Print_transliteration_failure msg] else [])
      | Inl G2RetryTimeoutExceeded \<Rightarrow> Inr [Print_hit_retry_timeout]
      | Inl err \<Rightarrow> Inl err)"

text \<open>The body of \<open>for fut in done\<close>. The worker's own line on stderr is not the loop's.\<close>

definition harvest_one ::
  "config \<Rightarrow> real \<Rightarrow> handle \<times> engine_reply \<Rightarrow> state \<Rightarrow> event list \<times> (exn \<times> state + state)" where
  "harvest_one cfg nowTime d s =
     (case map_of (futures s) (fst d) of
        None \<Rightarrow> ([], Inl (KeyError, s))
      | Some msg \<Rightarrow>
          (let s1 = s\<lparr>futures := AList.delete (fst d) (futures s)\<rparr>
           in case classify (fst msg) (snd (process_msg (snd d) (fst msg) (info cfg))) of
                Inl err \<Rightarrow> ([], Inl (err, s1))
              | Inr evs \<Rightarrow>
                  (let s2 = s1\<lparr>messages := messages s1 + 1\<rparr>;
                       (evs', s3) = rate_stats nowTime s2
                   in (evs @ evs', Inr s3))))"

fun harvest_loop ::
  "config \<Rightarrow> real \<Rightarrow> (handle \<times> engine_reply) list \<Rightarrow> state \<Rightarrow> event list \<times> (exn \<times> state + state)" where
  "harvest_loop cfg nowTime [] s = ([], Inr s)"
| "harvest_loop cfg nowTime (d # ds) s =
     (case harvest_one cfg nowTime d s of
        (evs, Inl err) \<Rightarrow> (evs, Inl err)
      | (evs, Inr s') \<Rightarrow>
          (let (evs', r) = harvest_loop cfg nowTime ds s' in (evs @ evs', r)))"

subsection \<open>The scan for long running records\<close>

text \<open>\<open>loggingID(orjson.loads(msg[TUPLE_MSG]))\<close>, as both dumps of the registry call it.\<close>

definition identify :: "config \<Rightarrow> string \<Rightarrow> exn + fstring" where
  "identify cfg msg =
     (case loads cfg msg of
        None \<Rightarrow> Inl JSONDecodeError
      | Some record \<Rightarrow> loggingID record)"

text \<open>One round of \<open>for fut, msg in futures.items()\<close>, up to the \<open>numStuck\<close> test.\<close>

definition scan_entry ::
  "config \<Rightarrow> real \<Rightarrow> (handle \<Rightarrow> bool) \<Rightarrow> handle \<times> string \<times> real \<Rightarrow> nat \<Rightarrow> event list \<times> (exn + nat)" where
  "scan_entry cfg nowTime dn entry numStuck =
     (case entry of (fut, msg, start) \<Rightarrow>
        if \<not> dn fut
        then (let duration = nowTime - start
              in case float_gt duration (long_record_twice (LONG_RECORD cfg)) of
                   Inl err \<Rightarrow> ([], Inl err)
                 | Inr False \<Rightarrow> ([], Inr numStuck)
                 | Inr True \<Rightarrow>
                     (case identify cfg msg of
                        Inl err \<Rightarrow> ([], Inl err)
                      | Inr ident \<Rightarrow>
                          ([Print_long_record (duration / 60) ident], Inr (numStuck + 1))))
        else ([], Inr numStuck))"

fun stuck_scan ::
  "config \<Rightarrow> real \<Rightarrow> (handle \<Rightarrow> bool) \<Rightarrow> (handle \<times> string \<times> real) list \<Rightarrow> nat \<Rightarrow> event list \<times> (exn + nat)" where
  "stuck_scan cfg nowTime dn [] numStuck = ([], Inr numStuck)"
| "stuck_scan cfg nowTime dn (entry # rest) numStuck =
     (case scan_entry cfg nowTime dn entry numStuck of
        (evs, Inl err) \<Rightarrow> (evs, Inl err)
      | (evs, Inr n) \<Rightarrow>
          (let evs2 = (if n \<ge> max_workers cfg then [Print_all_stuck (max_workers cfg)] else []);
               (evs3, r) = stuck_scan cfg nowTime dn rest n
           in (evs @ evs2 @ evs3, r)))"

text \<open>The timed check \<open>if nowTime > logCheckTime + (LONG_RECORD / 2)\<close>: the statistics of
  the engine, then the scan.\<close>

definition long_check :: "config \<Rightarrow> env \<Rightarrow> state \<Rightarrow> event list \<times> (exn \<times> state + state)" where
  "long_check cfg e s =
     (case long_record_half (LONG_RECORD cfg) of
        Inl err \<Rightarrow> ([], Inl (err, s))
      | Inr half \<Rightarrow>
          if time_top e > logCheckTime s + half
          then (let s1 = s\<lparr>logCheckTime := time_top e\<rparr>
                in case g2_stats e of
                     Inl err \<Rightarrow> ([], Inl (err, s1))
                   | Inr response \<Rightarrow>
                       (case stuck_scan cfg (time_top e) (done_at_scan e) (futures s1) 0 of
                          (evs, Inl err) \<Rightarrow> (Print_stats response # evs, Inl (err, s1))
                        | (evs, Inr n) \<Rightarrow> (Print_stats response # evs, Inr s1)))
          else ([], Inr s))"

text \<open>The \<open>if futures:\<close> block: harvest, then the timed check.\<close>

definition harvest_stage :: "config \<Rightarrow> env \<Rightarrow> state \<Rightarrow> event list \<times> (exn \<times> state + state)" where
  "harvest_stage cfg e s =
     (if futures s \<noteq> []
      then (case harvest_loop cfg (time_top e) (wait_done e (futures s)) s of
              (evs, Inl err) \<Rightarrow> (evs, Inl err)
            | (evs, Inr s1) \<Rightarrow>
                (let (evs', r) = long_check cfg e s1 in (evs @ evs', r)))
      else ([], Inr s))"

subsection \<open>Admission: governor, empty pause, fill loop\<close>

definition governor_branch :: "config \<Rightarrow> real \<Rightarrow> state \<Rightarrow> event list \<times> flow" where
  "governor_branch cfg pauseSeconds s =
     (if pauseSeconds < 0 then ([Sleep 1], Next_iteration)
      else if length (futures s) \<ge> max_workers cfg then ([Sleep 1], Next_iteration)
      else if pauseSeconds > 0 then ([Sleep pauseSeconds], Fall_through)
      else ([], Fall_through))"

definition empty_pause_check :: "real \<Rightarrow> state \<Rightarrow> event list \<times> flow \<times> state" where
  "empty_pause_check t s =
     (if empty_pause s \<noteq> 0
      then (if t < empty_pause s then ([Sleep 1], Next_iteration, s)
            else ([], Fall_through, s\<lparr>empty_pause := 0\<rparr>))
      else ([], Fall_through, s))"

text \<open>\<open>futures[executor.submit(process_msg, g2, msg, args.info)] = (msg, time.time())\<close>.
  The future \<open>executor.submit\<close> returns is a new object, so the assignment adds an entry
  at the end of the dict.\<close>

definition submitted :: "state \<Rightarrow> string \<Rightarrow> real \<Rightarrow> state" where
  "submitted s msg t =
     s\<lparr>futures := futures s @ [(next_future s, msg, t)], next_future := Suc (next_future s)\<rparr>"

text \<open>\<open>while len(futures) < executor._max_workers\<close>.\<close>

function fill_loop ::
  "config \<Rightarrow> (nat \<Rightarrow> fetch_result \<times> real) \<Rightarrow> nat \<Rightarrow> state \<Rightarrow> event list \<times> (exn \<times> state + state)" where
  "fill_loop cfg fe k s =
     (if length (futures s) < max_workers cfg
      then (case fe k of
              (Fetch_raises err, t) \<Rightarrow> ([Stderr_fetch_error err], Inl (err, s))
            | (Redo_record response, t) \<Rightarrow>
                if response = []
                then ([Print_no_redo (EMPTY_PAUSE_TIME cfg)],
                      Inr (s\<lparr>empty_pause := t + real_of_int (EMPTY_PAUSE_TIME cfg)\<rparr>))
                else (let (evs, r) = fill_loop cfg fe (Suc k) (submitted s response t)
                      in (Submit (next_future s) response # evs, r)))
      else ([], Inr s))"
  by pat_completeness auto
termination
  by (relation "measure (\<lambda>(cfg, fe, k, s). max_workers cfg - length (futures s))")
    (auto simp: submitted_def)

declare fill_loop.simps [simp del]

definition pause_and_fill :: "config \<Rightarrow> env \<Rightarrow> state \<Rightarrow> event list \<times> (exn \<times> state + state)" where
  "pause_and_fill cfg e s =
     (case empty_pause_check (time_pause_check e) s of
        (evs, Next_iteration, s1) \<Rightarrow> (evs, Inr s1)
      | (evs, Fall_through, s1) \<Rightarrow>
          (let (evs', r) = fill_loop cfg (fetch e) 0 s1 in (evs @ evs', r)))"

definition admission :: "config \<Rightarrow> env \<Rightarrow> state \<Rightarrow> event list \<times> (exn \<times> state + state)" where
  "admission cfg e s =
     (case govern e of
        Inl err \<Rightarrow> ([], Inl (err, s))
      | Inr pauseSeconds \<Rightarrow>
          (case governor_branch cfg pauseSeconds s of
             (evs, Next_iteration) \<Rightarrow> (evs, Inr s)
           | (evs, Fall_through) \<Rightarrow>
               (let (evs', r) = pause_and_fill cfg e s in (evs @ evs', r))))"

definition loop_body :: "config \<Rightarrow> env \<Rightarrow> state \<Rightarrow> event list \<times> (exn \<times> state + state)" where
  "loop_body cfg e s =
     (case harvest_stage cfg e s of
        (evs, Inl err) \<Rightarrow> (evs, Inl err)
      | (evs, Inr s1) \<Rightarrow>
          (let (evs', r) = admission cfg e s1 in (evs @ evs', r)))"

subsection \<open>The shutdown handler and the whole loop\<close>

fun still_processing ::
  "config \<Rightarrow> real \<Rightarrow> (handle \<Rightarrow> bool) \<Rightarrow> (handle \<times> string \<times> real) list \<Rightarrow> event list \<times> (exn + unit)" where
  "still_processing cfg nowTime dn [] = ([], Inr ())"
| "still_processing cfg nowTime dn ((fut, msg, start) # rest) =
     (if \<not> dn fut
      then (case identify cfg msg of
              Inl err \<Rightarrow> ([], Inl err)
            | Inr ident \<Rightarrow>
                (let (evs, r) = still_processing cfg nowTime dn rest
                 in (Print_still_processing ((nowTime - start) / 60) ident # evs, r)))
      else still_processing cfg nowTime dn rest)"

text \<open>
  The handler \<open>except Exception as err\<close> of the loop. When it runs to its end it calls
  \<open>executor.shutdown()\<close> and \<open>exit(-1)\<close>. When the dump itself raises, the \<open>with\<close> block
  shuts the executor down on the way out and the outer handler prints the new exception
  and calls \<open>exit(-1)\<close>.
\<close>

definition shutdown_handler :: "config \<Rightarrow> env \<Rightarrow> exn \<Rightarrow> state \<Rightarrow> event list" where
  "shutdown_handler cfg e err s =
     (case still_processing cfg (time_shutdown e) (done_at_shutdown e) (futures s) of
        (evs, Inr u) \<Rightarrow> Stderr_shutting_down err # evs @ [Executor_shutdown, Exit (- 1)]
      | (evs, Inl err2) \<Rightarrow>
          Stderr_shutting_down err # evs @ [Executor_shutdown, Stderr_outer err2, Exit (- 1)])"

definition iteration :: "config \<Rightarrow> env \<Rightarrow> state \<Rightarrow> event list \<times> status" where
  "iteration cfg e s =
     (case loop_body cfg e s of
        (evs, Inr s') \<Rightarrow> (evs, Running s')
      | (evs, Inl (err, s')) \<Rightarrow> (evs @ shutdown_handler cfg e err s', Exited (- 1) s'))"

text \<open>\<open>while True\<close>, over the inputs of as many iterations as the list holds.\<close>

fun run :: "config \<Rightarrow> env list \<Rightarrow> state \<Rightarrow> event list \<times> status" where
  "run cfg [] s = ([], Running s)"
| "run cfg (e # es) s =
     (case iteration cfg e s of
        (evs, Running s') \<Rightarrow> (let (evs', r) = run cfg es s' in (evs @ evs', r))
      | (evs, Exited c s') \<Rightarrow> (evs, Exited c s'))"

text \<open>The variables as the loop finds them: \<open>futures = {}\<close>, \<open>empty_pause = 0\<close>,
  \<open>messages = 0\<close>, and both timers at the clock read once before the loop.\<close>

definition init_state :: "real \<Rightarrow> state" where
  "init_state t0 =
     \<lparr>futures = [], empty_pause = 0, messages = 0, prevTime = t0, logCheckTime = t0,
      next_future = 0\<rparr>"

fun state_of :: "status \<Rightarrow> state" where
  "state_of (Running s) = s"
| "state_of (Exited c s) = s"

text \<open>The state a stage leaves, whether it ended normally or with an exception.\<close>

definition outcome_state :: "exn \<times> state + state \<Rightarrow> state" where
  "outcome_state r = (case r of Inl (err, s) \<Rightarrow> s | Inr s \<Rightarrow> s)"

text \<open>The completions the \<open>try\<close> around \<open>fut.result()\<close> does not let through: a
  return, a \<open>G2BadInputException\<close>, a \<open>G2RetryTimeoutExceeded\<close>.\<close>

fun recoverable :: "engine_reply \<Rightarrow> bool" where
  "recoverable (Engine_returns response) = True"
| "recoverable (Engine_raises (G2BadInputException code)) = True"
| "recoverable (Engine_raises G2RetryTimeoutExceeded) = True"
| "recoverable (Engine_raises err) = False"

text \<open>The registry as a dict: no future registered twice, and none that \<open>executor.submit\<close>
  has yet to create.\<close>

definition registry_ok :: "state \<Rightarrow> bool" where
  "registry_ok s =
     (distinct (map fst (futures s)) \<and> (\<forall>fut \<in> fst ` set (futures s). fut < next_future s))"


text \<open>The long-record lines of a trace, in order.\<close>

definition long_record_lines :: "event list \<Rightarrow> event list" where
  "long_record_lines evs =
     filter (\<lambda>ev. case ev of Print_long_record minutes ident \<Rightarrow> True | _ \<Rightarrow> False) evs"

subsection \<open>Sample inputs\<close>

text \<open>A redo record of a data source and a repair message, as the engine hands them
  out, and what \<open>orjson.loads\<close> makes of them.\<close>

definition sample_record_text :: string where
  \<open>sample_record_text = ''{"DATA_SOURCE":"CUSTOMERS","RECORD_ID":"1001","DSRC_ACTION":"X"}''\<close>

definition sample_record :: json where
  "sample_record =
     JObj [(''DATA_SOURCE'', JStr ''CUSTOMERS''), (''RECORD_ID'', JStr ''1001''),
           (''DSRC_ACTION'', JStr ''X'')]"

definition sample_repair_text :: string where
  \<open>sample_repair_text =
     ''{"UMF_PROC":{"NAME":"REPAIR_ENTITY","PARAMS":[{"PARAM":{"NAME":"ENTITY_ID","VALUE":"32705738"}}]}}''\<close>

definition sample_repair :: json where
  "sample_repair =
     JObj [(''UMF_PROC'',
            JObj [(''NAME'', JStr ''REPAIR_ENTITY''),
                  (''PARAMS'',
                   JList [JObj [(''PARAM'',
                                 JObj [(''NAME'', JStr ''ENTITY_ID''),
                                       (''VALUE'', JStr ''32705738'')])]])])]"

definition sample_loads :: "string \<Rightarrow> json option" where
  "sample_loads =
     map_of [(sample_record_text, sample_record), (sample_repair_text, sample_repair)]"

text \<open>Two workers, no variable of the environment set, \<open>--info\<close> given.\<close>

definition sample_cfg :: config where
  "sample_cfg =
     \<lparr>max_workers = 2, LONG_RECORD = LONG_RECORD_getenv None, EMPTY_PAUSE_TIME = 60,
      info = True, loads = sample_loads\<rparr>"

text \<open>An iteration at clock 1000 in which nothing has completed, the governor lets
  work in and the redo queue is empty.\<close>

definition sample_env :: env where
  "sample_env =
     \<lparr>time_top = 1000, completed = (\<lambda>fut. None), g2_stats = Inr ''{}'',
      done_at_scan = (\<lambda>fut. False), govern = Inr 0, time_pause_check = 1000,
      fetch = (\<lambda>k. (Redo_record [], 1000)), time_shutdown = 1000,
      done_at_shutdown = (\<lambda>fut. False)\<rparr>"



text \<open>One task in flight, 999 completions counted, the last report at clock 998.\<close>

definition before_report :: state where
  "before_report = (submitted (init_state 0) sample_record_text 999)\<lparr>messages := 999, prevTime := 998\<rparr>"





text \<open>A repair message in flight since clock 1000.\<close>

definition stuck_repair :: state where
  "stuck_repair = submitted (init_state 0) sample_repair_text 1000"

section \<open>Properties\<close>

subsection \<open>The fill loop, one round at a time\<close>

lemma fill_loop_full:
  "max_workers cfg \<le> length (futures s) \<Longrightarrow> fill_loop cfg fe k s = ([], Inr s)"
  by (simp add: fill_loop.simps [of cfg fe k s])

lemma fill_loop_raises:
  "length (futures s) < max_workers cfg \<Longrightarrow> fe k = (Fetch_raises err, t) \<Longrightarrow>
   fill_loop cfg fe k s = ([Stderr_fetch_error err], Inl (err, s))"
  by (simp add: fill_loop.simps [of cfg fe k s])

lemma fill_loop_empty:
  "length (futures s) < max_workers cfg \<Longrightarrow> fe k = (Redo_record [], t) \<Longrightarrow>
   fill_loop cfg fe k s =
     ([Print_no_redo (EMPTY_PAUSE_TIME cfg)],
      Inr (s\<lparr>empty_pause := t + real_of_int (EMPTY_PAUSE_TIME cfg)\<rparr>))"
  by (simp add: fill_loop.simps [of cfg fe k s])

lemma fill_loop_submit:
  "length (futures s) < max_workers cfg \<Longrightarrow> fe k = (Redo_record response, t) \<Longrightarrow>
   response \<noteq> [] \<Longrightarrow>
   fill_loop cfg fe k s =
     (Submit (next_future s) response # fst (fill_loop cfg fe (Suc k) (submitted s response t)),
      snd (fill_loop cfg fe (Suc k) (submitted s response t)))"
  by (simp add: fill_loop.simps [of cfg fe k s] split: prod.splits)

lemma fill_loop_cases:
  obtains (full) "max_workers cfg \<le> length (futures s)"
  | (raises) err t where "length (futures s) < max_workers cfg" "fe k = (Fetch_raises err, t)"
  | (empty) t where "length (futures s) < max_workers cfg" "fe k = (Redo_record [], t)"
  | (submit) response t where "length (futures s) < max_workers cfg"
      "fe k = (Redo_record response, t)" "response \<noteq> []"
proof (cases "length (futures s) < max_workers cfg")
  case False
  then show ?thesis using full by simp
next
  case True
  obtain fr t where fk: "fe k = (fr, t)" by (cases "fe k")
  show ?thesis
  proof (cases fr)
    case (Fetch_raises err)
    with True fk raises show ?thesis by simp
  next
    case (Redo_record response)
    with True fk empty submit show ?thesis by (cases "response = []") simp_all
  qed
qed


subsection \<open>Evaluating the stages on sample inputs\<close>

lemmas stage_defs =
  iteration_def loop_body_def harvest_stage_def admission_def governor_branch_def
  pause_and_fill_def empty_pause_check_def wait_done_def List.map_filter_def long_check_def
  long_record_half_def scan_entry_def identify_def dict_get_def float_gt_def
  long_record_twice_def harvest_one_def
  classify_def process_msg_def rate_stats_def INTERVAL_def int_of_float_def
  shutdown_handler_def submitted_def
  fill_loop_submit fill_loop_full fill_loop_empty fill_loop_raises

lemmas sample_defs =
  sample_cfg_def sample_env_def init_state_def LONG_RECORD_getenv_def sample_loads_def

lemma sample_cfg_fields:
  "max_workers sample_cfg = 2" "LONG_RECORD sample_cfg = PyInt 300"
  "EMPTY_PAUSE_TIME sample_cfg = 60" "info sample_cfg = True" "loads sample_cfg = sample_loads"
  by (simp_all add: sample_cfg_def LONG_RECORD_getenv_def)

lemma sample_texts_differ: "sample_repair_text \<noteq> sample_record_text"
  by (simp add: sample_repair_text_def sample_record_text_def)


lemma identify_sample_repair:
  "identify sample_cfg sample_repair_text = Inl NameError"
  by (simp add: identify_def sample_cfg_def sample_loads_def sample_repair_def dict_get_def
      sample_texts_differ)

subsection \<open>The registry never exceeds the pool\<close>

lemma rate_stats_futures: "futures (snd (rate_stats nowTime s)) = futures s"
  by (simp add: rate_stats_def Let_def)

lemma harvest_one_futures:
  "futures (outcome_state (snd (harvest_one cfg nowTime d s))) =
     (if map_of (futures s) (fst d) = None then futures s else AList.delete (fst d) (futures s))"
proof (cases "map_of (futures s) (fst d)")
  case None
  then show ?thesis by (simp add: harvest_one_def outcome_state_def)
next
  case (Some msg)
  let ?s2 = "s\<lparr>futures := AList.delete (fst d) (futures s), messages := Suc (messages s)\<rparr>"
  have "futures (snd (rate_stats nowTime ?s2)) = AList.delete (fst d) (futures s)"
    by (simp add: rate_stats_futures)
  with Some show ?thesis
    by (simp add: harvest_one_def outcome_state_def Let_def case_prod_beta split: sum.splits)
qed

lemma harvest_one_length:
  "length (futures (outcome_state (snd (harvest_one cfg nowTime d s)))) \<le> length (futures s)"
  by (simp add: harvest_one_futures length_delete_le)

lemma harvest_loop_length:
  "length (futures (outcome_state (snd (harvest_loop cfg nowTime ds s)))) \<le> length (futures s)"
proof (induction ds arbitrary: s)
  case Nil
  then show ?case by (simp add: outcome_state_def)
next
  case (Cons d ds)
  obtain evs r where h: "harvest_one cfg nowTime d s = (evs, r)" by (cases "harvest_one cfg nowTime d s")
  show ?case
  proof (cases r)
    case (Inl err)
    with h harvest_one_length [of cfg nowTime d s] show ?thesis by simp
  next
    case (Inr s')
    with h harvest_one_length [of cfg nowTime d s]
    have "length (futures s') \<le> length (futures s)" by (simp add: outcome_state_def)
    moreover have "length (futures (outcome_state (snd (harvest_loop cfg nowTime ds s')))) \<le> length (futures s')"
      by (rule Cons.IH)
    ultimately show ?thesis using h Inr by (simp add: case_prod_beta)
  qed
qed

lemma long_check_futures: "futures (outcome_state (snd (long_check cfg e s))) = futures s"
  by (simp add: long_check_def outcome_state_def Let_def case_prod_beta split: sum.splits)

lemma harvest_stage_length:
  "length (futures (outcome_state (snd (harvest_stage cfg e s)))) \<le> length (futures s)"
proof (cases "futures s = []")
  case True
  then show ?thesis by (simp add: harvest_stage_def outcome_state_def)
next
  case False
  obtain evs r where h: "harvest_loop cfg (time_top e) (wait_done e (futures s)) s = (evs, r)"
    by (cases "harvest_loop cfg (time_top e) (wait_done e (futures s)) s")
  have le: "length (futures (outcome_state r)) \<le> length (futures s)"
    using harvest_loop_length [of cfg "time_top e" "wait_done e (futures s)" s] h by simp
  show ?thesis
  proof (cases r)
    case (Inl err)
    with False h le show ?thesis by (simp add: harvest_stage_def)
  next
    case (Inr s1)
    with le have "length (futures s1) \<le> length (futures s)" by (simp add: outcome_state_def)
    with False h Inr long_check_futures [of cfg e s1] show ?thesis
      by (simp add: harvest_stage_def case_prod_beta)
  qed
qed

lemma fill_loop_bounded:
  "length (futures s) \<le> max_workers cfg \<Longrightarrow>
   length (futures (outcome_state (snd (fill_loop cfg fe k s)))) \<le> max_workers cfg"
proof (induction "max_workers cfg - length (futures s)" arbitrary: k s)
  case 0
  then show ?case by (simp add: fill_loop_full outcome_state_def)
next
  case (Suc n)
  show ?case
  proof (cases rule: fill_loop_cases [where cfg = cfg and s = s and fe = fe and k = k])
    case full
    with Suc.prems show ?thesis by (simp add: fill_loop_full outcome_state_def)
  next
    case (raises err t)
    with Suc.prems show ?thesis by (simp add: fill_loop_raises outcome_state_def)
  next
    case (empty t)
    with Suc.prems show ?thesis by (simp add: fill_loop_empty outcome_state_def)
  next
    case (submit response t)
    have "n = max_workers cfg - length (futures (submitted s response t))"
      using Suc.hyps(2) by (simp add: submitted_def)
    moreover have "length (futures (submitted s response t)) \<le> max_workers cfg"
      using submit(1) by (simp add: submitted_def)
    ultimately have "length (futures (outcome_state (snd (fill_loop cfg fe (Suc k) (submitted s response t)))))
        \<le> max_workers cfg"
      by (rule Suc.hyps(1))
    with submit show ?thesis by (simp add: fill_loop_submit)
  qed
qed

lemma pause_and_fill_bounded:
  "length (futures s) \<le> max_workers cfg \<Longrightarrow>
   length (futures (outcome_state (snd (pause_and_fill cfg e s)))) \<le> max_workers cfg"
  using fill_loop_bounded [of s cfg "fetch e" 0]
    fill_loop_bounded [of "s\<lparr>empty_pause := 0\<rparr>" cfg "fetch e" 0]
  by (simp add: pause_and_fill_def empty_pause_check_def outcome_state_def case_prod_beta)

lemma admission_bounded:
  "length (futures s) \<le> max_workers cfg \<Longrightarrow>
   length (futures (outcome_state (snd (admission cfg e s)))) \<le> max_workers cfg"
  using pause_and_fill_bounded [of s cfg e]
  by (auto simp: admission_def governor_branch_def outcome_state_def case_prod_beta split: sum.splits)

lemma loop_body_bounded:
  assumes "length (futures s) \<le> max_workers cfg"
  shows "length (futures (outcome_state (snd (loop_body cfg e s)))) \<le> max_workers cfg"
proof -
  obtain evs r where h: "harvest_stage cfg e s = (evs, r)" by (cases "harvest_stage cfg e s")
  have le: "length (futures (outcome_state r)) \<le> max_workers cfg"
    using harvest_stage_length [of cfg e s] h assms by simp
  show ?thesis
  proof (cases r)
    case (Inl err)
    with h le show ?thesis by (simp add: loop_body_def)
  next
    case (Inr s1)
    with le have "length (futures s1) \<le> max_workers cfg" by (simp add: outcome_state_def)
    from admission_bounded [OF this, of e] h Inr show ?thesis
      by (simp add: loop_body_def case_prod_beta)
  qed
qed

lemma iteration_bounded:
  "length (futures s) \<le> max_workers cfg \<Longrightarrow>
   length (futures (state_of (snd (iteration cfg e s)))) \<le> max_workers cfg"
  using loop_body_bounded [of s cfg e]
  by (auto simp: iteration_def outcome_state_def case_prod_beta split: sum.splits)

lemma run_bounded:
  "length (futures s) \<le> max_workers cfg \<Longrightarrow>
   length (futures (state_of (snd (run cfg es s)))) \<le> max_workers cfg"
proof (induction es arbitrary: s)
  case Nil
  then show ?case by simp
next
  case (Cons e es)
  obtain evs st where it: "iteration cfg e s = (evs, st)" by (cases "iteration cfg e s")
  from iteration_bounded [OF Cons.prems, of e] it
  have le: "length (futures (state_of st)) \<le> max_workers cfg" by simp
  show ?case
  proof (cases st)
    case (Running s')
    with le Cons.IH [of s'] it show ?thesis by (simp add: case_prod_beta)
  next
    case (Exited c s')
    with le it show ?thesis by simp
  qed
qed


text \<open>
  C1. From a registry within \<open>max_workers\<close> (the empty one at start), the registry is
  within \<open>max_workers\<close> after any number of iterations, on any inputs, whether the loop is
  still running or has exited. Inside an iteration, harvesting any list of completions
  and the whole \<open>if futures:\<close> block leave at most as many entries as they found, the fill
  loop ends within \<open>max_workers\<close> from any round, does nothing at all once the registry
  has reached \<open>max_workers\<close>, and one more submission below capacity stays within it.
\<close>

theorem registry_within_capacity:
  assumes "length (futures s) \<le> max_workers cfg"
  shows "length (futures (state_of (snd (run cfg es s)))) \<le> max_workers cfg
       \<and> length (futures (outcome_state (snd (harvest_loop cfg nowTime ds s)))) \<le> length (futures s)
       \<and> length (futures (outcome_state (snd (harvest_stage cfg e s)))) \<le> length (futures s)
       \<and> length (futures (outcome_state (snd (fill_loop cfg fe k s)))) \<le> max_workers cfg
       \<and> (max_workers cfg \<le> length (futures s) \<longrightarrow> fill_loop cfg fe k s = ([], Inr s))
       \<and> (length (futures s) < max_workers cfg \<longrightarrow>
            length (futures (submitted s msg t)) \<le> max_workers cfg)"
  using assms
  by (simp add: run_bounded harvest_loop_length harvest_stage_length fill_loop_bounded
      fill_loop_full submitted_def)

theorem registry_within_capacity_witness:
  "length (futures (init_state 0)) \<le> max_workers sample_cfg
   \<and> length (futures (state_of (snd (run sample_cfg
        [sample_env\<lparr>fetch := (\<lambda>k. (Redo_record sample_record_text, 1000 + real k))\<rparr>,
         sample_env\<lparr>fetch := (\<lambda>k. (Redo_record sample_record_text, 1000 + real k))\<rparr>]
        (init_state 0))))) \<le> max_workers sample_cfg
   \<and> run sample_cfg
        [sample_env\<lparr>fetch := (\<lambda>k. (Redo_record sample_record_text, 1000 + real k))\<rparr>,
         sample_env\<lparr>fetch := (\<lambda>k. (Redo_record sample_record_text, 1000 + real k))\<rparr>]
        (init_state 0)
     = ([Submit 0 sample_record_text, Submit 1 sample_record_text, Print_stats ''{}'', Sleep 1],
        Running ((submitted (submitted (init_state 0) sample_record_text 1000) sample_record_text 1001)
                   \<lparr>logCheckTime := 1000\<rparr>))"
proof -
  have a: "length (futures (init_state 0)) \<le> max_workers sample_cfg"
    by (simp add: sample_defs)
  have b: "run sample_cfg
        [sample_env\<lparr>fetch := (\<lambda>k. (Redo_record sample_record_text, 1000 + real k))\<rparr>,
         sample_env\<lparr>fetch := (\<lambda>k. (Redo_record sample_record_text, 1000 + real k))\<rparr>]
        (init_state 0)
     = ([Submit 0 sample_record_text, Submit 1 sample_record_text, Print_stats ''{}'', Sleep 1],
        Running ((submitted (submitted (init_state 0) sample_record_text 1000) sample_record_text 1001)
                   \<lparr>logCheckTime := 1000\<rparr>))"
    by (simp add: stage_defs sample_defs sample_record_text_def)
  from registry_within_capacity [OF a, THEN conjunct1] a b show ?thesis
    by blast
qed


subsection \<open>The registry stays a dict\<close>

text \<open>The model keeps the registry as a list of entries and registers a new future at its
  end. From the empty registry no run registers a future twice, so the length of the list
  is the size of the dict and a lookup or removal by future touches one entry.\<close>

lemma harvest_one_next_future:
  "next_future (outcome_state (snd (harvest_one cfg nowTime d s))) = next_future s"
  by (simp add: harvest_one_def rate_stats_def outcome_state_def Let_def case_prod_beta
      split: option.splits sum.splits)

lemma harvest_one_registry_ok:
  "registry_ok s \<Longrightarrow> registry_ok (outcome_state (snd (harvest_one cfg nowTime d s)))"
proof -
  have "set (AList.delete (fst d) (futures s)) \<subseteq> set (futures s)"
    by (auto simp: AList.delete_eq)
  then show "registry_ok s \<Longrightarrow> registry_ok (outcome_state (snd (harvest_one cfg nowTime d s)))"
    by (auto simp: registry_ok_def harvest_one_futures harvest_one_next_future distinct_delete)
qed

lemma harvest_loop_registry_ok:
  "registry_ok s \<Longrightarrow> registry_ok (outcome_state (snd (harvest_loop cfg nowTime ds s)))"
proof (induction ds arbitrary: s)
  case Nil
  then show ?case by (simp add: outcome_state_def)
next
  case (Cons d ds)
  obtain evs r where h: "harvest_one cfg nowTime d s = (evs, r)"
    by (cases "harvest_one cfg nowTime d s")
  from harvest_one_registry_ok [OF Cons.prems, of cfg nowTime d] h
  have ok: "registry_ok (outcome_state r)" by simp
  show ?case
  proof (cases r)
    case (Inl err)
    with h ok show ?thesis by simp
  next
    case (Inr s')
    with ok have "registry_ok s'" by (simp add: outcome_state_def)
    from Cons.IH [OF this] h Inr show ?thesis by (simp add: case_prod_beta)
  qed
qed

lemma long_check_registry_ok:
  "registry_ok s \<Longrightarrow> registry_ok (outcome_state (snd (long_check cfg e s)))"
  by (simp add: long_check_def registry_ok_def outcome_state_def Let_def case_prod_beta
      split: sum.splits)

lemma harvest_stage_registry_ok:
  assumes "registry_ok s"
  shows "registry_ok (outcome_state (snd (harvest_stage cfg e s)))"
proof (cases "futures s = []")
  case True
  with assms show ?thesis by (simp add: harvest_stage_def outcome_state_def)
next
  case False
  obtain evs r where h: "harvest_loop cfg (time_top e) (wait_done e (futures s)) s = (evs, r)"
    by (cases "harvest_loop cfg (time_top e) (wait_done e (futures s)) s")
  from harvest_loop_registry_ok [OF assms, of cfg "time_top e" "wait_done e (futures s)"] h
  have ok: "registry_ok (outcome_state r)" by simp
  show ?thesis
  proof (cases r)
    case (Inl err)
    with False h ok show ?thesis by (simp add: harvest_stage_def)
  next
    case (Inr s1)
    with ok have "registry_ok s1" by (simp add: outcome_state_def)
    from long_check_registry_ok [OF this, of cfg e] False h Inr show ?thesis
      by (simp add: harvest_stage_def case_prod_beta)
  qed
qed

lemma submitted_registry_ok: "registry_ok s \<Longrightarrow> registry_ok (submitted s msg t)"
  by (auto simp: registry_ok_def submitted_def less_Suc_eq)

lemma fill_loop_registry_ok:
  "registry_ok s \<Longrightarrow> registry_ok (outcome_state (snd (fill_loop cfg fe k s)))"
proof (induction "max_workers cfg - length (futures s)" arbitrary: k s)
  case 0
  then show ?case by (simp add: fill_loop_full outcome_state_def)
next
  case (Suc n)
  show ?case
  proof (cases rule: fill_loop_cases [where cfg = cfg and s = s and fe = fe and k = k])
    case full
    with Suc.prems show ?thesis by (simp add: fill_loop_full outcome_state_def)
  next
    case (raises err t)
    with Suc.prems show ?thesis by (simp add: fill_loop_raises outcome_state_def)
  next
    case (empty t)
    with Suc.prems show ?thesis by (simp add: fill_loop_empty outcome_state_def registry_ok_def)
  next
    case (submit response t)
    have "n = max_workers cfg - length (futures (submitted s response t))"
      using Suc.hyps(2) by (simp add: submitted_def)
    from Suc.hyps(1) [OF this submitted_registry_ok [OF Suc.prems]] submit
    show ?thesis by (simp add: fill_loop_submit)
  qed
qed

lemma admission_registry_ok:
  assumes "registry_ok s"
  shows "registry_ok (outcome_state (snd (admission cfg e s)))"
proof -
  have "registry_ok (s\<lparr>empty_pause := 0\<rparr>)" using assms by (simp add: registry_ok_def)
  from fill_loop_registry_ok [OF this, of cfg "fetch e" 0]
    fill_loop_registry_ok [OF assms, of cfg "fetch e" 0] assms
  show ?thesis
    by (auto simp: admission_def governor_branch_def pause_and_fill_def empty_pause_check_def
        outcome_state_def case_prod_beta split: sum.splits)
qed

lemma iteration_registry_ok:
  assumes "registry_ok s"
  shows "registry_ok (state_of (snd (iteration cfg e s)))"
proof -
  obtain evs r where h: "harvest_stage cfg e s = (evs, r)" by (cases "harvest_stage cfg e s")
  from harvest_stage_registry_ok [OF assms, of cfg e] h
  have ok: "registry_ok (outcome_state r)" by simp
  have "registry_ok (outcome_state (snd (loop_body cfg e s)))"
  proof (cases r)
    case (Inl err)
    with h ok show ?thesis by (simp add: loop_body_def)
  next
    case (Inr s1)
    with ok have "registry_ok s1" by (simp add: outcome_state_def)
    from admission_registry_ok [OF this, of cfg e] h Inr show ?thesis
      by (simp add: loop_body_def case_prod_beta)
  qed
  then show ?thesis
    by (auto simp: iteration_def outcome_state_def case_prod_beta split: sum.splits)
qed

lemma run_registry_ok:
  "registry_ok s \<Longrightarrow> registry_ok (state_of (snd (run cfg es s)))"
proof (induction es arbitrary: s)
  case Nil
  then show ?case by simp
next
  case (Cons e es)
  obtain evs st where it: "iteration cfg e s = (evs, st)" by (cases "iteration cfg e s")
  from iteration_registry_ok [OF Cons.prems, of cfg e] it
  have ok: "registry_ok (state_of st)" by simp
  show ?case
  proof (cases st)
    case (Running s')
    with ok Cons.IH [of s'] it show ?thesis by (simp add: case_prod_beta)
  next
    case (Exited c s')
    with ok it show ?thesis by simp
  qed
qed

lemma init_state_registry_ok: "registry_ok (init_state t0)"
  by (simp add: registry_ok_def init_state_def)

subsection \<open>The governor's decision\<close>



subsection \<open>Harvesting one completion\<close>

lemma classify_recoverable:
  "recoverable reply \<Longrightarrow> \<exists>notice. classify msg (snd (process_msg reply msg withinfo)) = Inr notice"
  by (cases reply rule: recoverable.cases) (simp_all add: classify_def process_msg_def)


lemma harvest_one_counted:
  assumes "map_of (futures s) fut = Some (msg, start)"
    and "classify msg (snd (process_msg reply msg (info cfg))) = Inr notice"
  shows "harvest_one cfg nowTime (fut, reply) s =
     (notice @ fst (rate_stats nowTime
         (s\<lparr>futures := AList.delete fut (futures s), messages := messages s + 1\<rparr>)),
      Inr (snd (rate_stats nowTime
         (s\<lparr>futures := AList.delete fut (futures s), messages := messages s + 1\<rparr>))))"
  using assms by (simp add: harvest_one_def Let_def case_prod_beta)


lemma rate_stats_messages: "messages (snd (rate_stats nowTime s)) = messages s"
  by (simp add: rate_stats_def Let_def)

lemma rate_stats_report:
  "rate_stats nowTime s =
     (if messages s mod INTERVAL = 0
      then ([Print_processed (messages s)
               (if nowTime - prevTime s > 0 then \<lfloor>real INTERVAL / (nowTime - prevTime s)\<rfloor> else - 1)],
            s\<lparr>prevTime := nowTime\<rparr>)
      else ([], s))"
  by (simp add: rate_stats_def Let_def int_of_float_def INTERVAL_def)


lemma harvest_loop_Cons_fatal:
  "harvest_one cfg nowTime d s = (evs, Inl err) \<Longrightarrow>
   harvest_loop cfg nowTime (d # ds) s = (evs, Inl err)"
  by simp










text \<open>
  C8, as amended. Each counted completion that brings the counter to a multiple of
  \<open>INTERVAL\<close> prints, after its own notice, one throughput line with the counter and the
  rate \<open>INTERVAL / (nowTime - prevTime)\<close> truncated to an integer, or \<open>-1\<close> when that
  difference is zero or negative, and sets \<open>prevTime\<close> to \<open>nowTime\<close>, the clock read at
  the top of the iteration; any other counted completion prints no throughput line and
  leaves \<open>prevTime\<close> alone.
\<close>

theorem throughput_line_every_interval:
  assumes "map_of (futures s) fut = Some (msg, start)" and "recoverable reply"
  shows "\<exists>notice s'.
           classify msg (snd (process_msg reply msg (info cfg))) = Inr notice
         \<and> harvest_one cfg nowTime (fut, reply) s =
             (notice @
              (if (messages s + 1) mod INTERVAL = 0
               then [Print_processed (messages s + 1)
                       (if nowTime - prevTime s > 0
                        then \<lfloor>real INTERVAL / (nowTime - prevTime s)\<rfloor> else - 1)]
               else []),
              Inr s')
         \<and> messages s' = messages s + 1
         \<and> prevTime s' = (if (messages s + 1) mod INTERVAL = 0 then nowTime else prevTime s)"
proof -
  let ?s2 = "s\<lparr>futures := AList.delete fut (futures s), messages := messages s + 1\<rparr>"
  from assms(2) obtain notice where
    cl: "classify msg (snd (process_msg reply msg (info cfg))) = Inr notice"
    using classify_recoverable by blast
  have one: "harvest_one cfg nowTime (fut, reply) s =
      (notice @ fst (rate_stats nowTime ?s2), Inr (snd (rate_stats nowTime ?s2)))"
    by (rule harvest_one_counted [OF assms(1) cl])
  have ev: "fst (rate_stats nowTime ?s2) =
      (if (messages s + 1) mod INTERVAL = 0
       then [Print_processed (messages s + 1)
               (if nowTime - prevTime s > 0 then \<lfloor>real INTERVAL / (nowTime - prevTime s)\<rfloor> else - 1)]
       else [])"
    by (simp add: rate_stats_report)
  have ms: "messages (snd (rate_stats nowTime ?s2)) = messages s + 1"
    by (simp add: rate_stats_messages)
  have pt: "prevTime (snd (rate_stats nowTime ?s2)) =
      (if (messages s + 1) mod INTERVAL = 0 then nowTime else prevTime s)"
    by (simp add: rate_stats_report)
  from cl one ev ms pt show ?thesis by (intro exI) (simp only: simp_thms)
qed

theorem throughput_line_every_interval_witness:
  "map_of (futures before_report) 0 = Some (sample_record_text, 999)
   \<and> recoverable (Engine_returns [])
   \<and> (\<exists>notice s'. harvest_one sample_cfg 1000 (0, Engine_returns []) before_report
           = (notice @ [Print_processed 1000 500], Inr s') \<and> prevTime s' = 1000)
   \<and> harvest_one sample_cfg 1000 (0, Engine_returns []) before_report
       = ([Print_processed 1000 500],
          Inr ((init_state 0)\<lparr>messages := 1000, prevTime := 1000, next_future := 1\<rparr>))
   \<and> fst (harvest_one sample_cfg 998 (0, Engine_returns []) before_report)
       = [Print_processed 1000 (- 1)]"
proof -
  have a: "map_of (futures before_report) 0 = Some (sample_record_text, 999)"
    by (simp add: before_report_def submitted_def init_state_def)
  have b: "recoverable (Engine_returns [])" by simp
  have c: "harvest_one sample_cfg 1000 (0, Engine_returns []) before_report
       = ([Print_processed 1000 500],
          Inr ((init_state 0)\<lparr>messages := 1000, prevTime := 1000, next_future := 1\<rparr>))"
    by (simp add: before_report_def stage_defs sample_defs)
  have d: "fst (harvest_one sample_cfg 998 (0, Engine_returns []) before_report)
       = [Print_processed 1000 (- 1)]"
    by (simp add: before_report_def stage_defs sample_defs)
  have m: "messages before_report = 999" "prevTime before_report = 998"
    by (simp_all add: before_report_def submitted_def)
  from throughput_line_every_interval [OF a b, of sample_cfg 1000]
  have "\<exists>notice s'. harvest_one sample_cfg 1000 (0, Engine_returns []) before_report
           = (notice @ [Print_processed 1000 500], Inr s') \<and> prevTime s' = 1000"
    by (simp add: m INTERVAL_def) blast
  with a b c d show ?thesis by blast
qed

theorem throughput_rate_truncated_counterexample:
  "harvest_one sample_cfg 1001 (0, Engine_returns []) before_report
     = ([Print_processed 1000 333],
        Inr ((init_state 0)\<lparr>messages := 1000, prevTime := 1001, next_future := 1\<rparr>))
   \<and> real_of_int 333 \<noteq> real INTERVAL / (1001 - prevTime before_report)"
  by (simp add: before_report_def stage_defs sample_defs)


subsection \<open>The empty pause\<close>





subsection \<open>The scan for long running records\<close>


lemma long_record_lines_append [simp]:
  "long_record_lines (xs @ ys) = long_record_lines xs @ long_record_lines ys"
  by (simp add: long_record_lines_def)





text \<open>When the variable \<open>LONG_RECORD\<close> is set, the constant is a str: the first timed check
  with a task in flight raises \<open>TypeError\<close> at \<open>LONG_RECORD / 2\<close>.\<close>

lemma long_record_set_raises:
  "futures s \<noteq> [] \<Longrightarrow> completed e = (\<lambda>fut. None) \<Longrightarrow>
   harvest_stage (cfg\<lparr>LONG_RECORD := LONG_RECORD_getenv (Some v)\<rparr>) e s = ([], Inl (TypeError, s))"
  by (simp add: harvest_stage_def wait_done_def List.map_filter_def long_check_def
      long_record_half_def LONG_RECORD_getenv_def)


subsection \<open>The timed check\<close>







subsection \<open>Fatal failures and the shutdown handler\<close>













subsection \<open>Identifying a record\<close>

lemma loggingID_repair_raises:
  "\<not> (truthy (dict_get rec ''DATA_SOURCE'') \<and> truthy (dict_get rec ''RECORD_ID'')) \<Longrightarrow>
   truthy (dict_get rec ''UMF_PROC'') \<Longrightarrow> loggingID (JObj rec) = Inl NameError"
  by (simp add: Let_def)

text \<open>
  C9. \<open>loggingID\<close> returns the data source and record id of a record that has both; on
  a repair message it raises \<open>NameError\<close> instead of returning the repair identifier.
  A repair message that has run long enough to be reported therefore ends the program:
  the scan raises, the dump of the shutdown handler raises again, and the outer handler
  exits.
\<close>

theorem loggingID_repair_message_raises:
  "loggingID sample_record = Inr [Fmt (JStr ''CUSTOMERS''), Lit '' : '', Fmt (JStr ''1001'')]
   \<and> loggingID sample_repair = Inl NameError
   \<and> iteration sample_cfg (sample_env\<lparr>time_top := 2000, time_shutdown := 2000\<rparr>) stuck_repair
     = ([Print_stats ''{}'', Stderr_shutting_down NameError, Executor_shutdown,
         Stderr_outer NameError, Exit (- 1)],
        Exited (- 1) (stuck_repair\<lparr>logCheckTime := 2000\<rparr>))"
proof (intro conjI)
  show "loggingID sample_record = Inr [Fmt (JStr ''CUSTOMERS''), Lit '' : '', Fmt (JStr ''1001'')]"
    by (simp add: sample_record_def dict_get_def)
  show "loggingID sample_repair = Inl NameError"
    by (simp add: sample_repair_def dict_get_def)
  show "iteration sample_cfg (sample_env\<lparr>time_top := 2000, time_shutdown := 2000\<rparr>) stuck_repair
     = ([Print_stats ''{}'', Stderr_shutting_down NameError, Executor_shutdown,
         Stderr_outer NameError, Exit (- 1)],
        Exited (- 1) (stuck_repair\<lparr>logCheckTime := 2000\<rparr>))"
    by (simp add: stuck_repair_def iteration_def loop_body_def harvest_stage_def wait_done_def
        List.map_filter_def long_check_def long_record_half_def scan_entry_def float_gt_def
        long_record_twice_def shutdown_handler_def submitted_def init_state_def sample_env_def
        sample_cfg_fields identify_sample_repair)
qed


end
